theory Spec2Isabelle
  imports Complex_Main "HOL-Library.Multiset" "HOL-Library.Sublist" "HOL-Library.Log_Nat"
begin

section \<open>The value hierarchy: pair selection and score updates\<close>

text \<open>
  A shallow embedding of the \<^verbatim>\<open>pairs\<close> and \<^verbatim>\<open>update-scores\<close> commands of
  \<^verbatim>\<open>src/index.ts\<close>.

  Conventions of the model:
  \<^item> a row of the CSV file is a \<open>Value\<close> record; \<open>score\<close> (read with \<^verbatim>\<open>parseFloat\<close>) is
    the real value of a finite double and \<open>comparisonCount\<close> (read with \<^verbatim>\<open>parseInt\<close>) an
    integer; the sums of the score update round as the sums of doubles do; \<^verbatim>\<open>NaN\<close> and
    the infinities are outside the model, and the two zeros are one value;
  \<^item> the file system is a partial map from paths to lists of rows; parsing and printing
    of CSV text is not modelled;
  \<^item> an object reference into the array \<^verbatim>\<open>values\<close> is the index of the object in that
    array: a mutation through the reference is an update of the list at that index;
  \<^item> \<^verbatim>\<open>process.exit(1)\<close> is an error value; the file system a command leaves behind is
    part of its result;
  \<^item> \<^verbatim>\<open>Math.random\<close> is a sequence of reals, the \<open>k\<close>-th call returning \<open>rnd k\<close>, which
    the language guarantees to lie in the interval from 0 (included) to 1 (excluded);
  \<^item> a string is the list of its code units, and a code unit is a \<open>char\<close>: the strings
    of the model are those whose code units are below 256.
\<close>

subsection \<open>Data model\<close>

text \<open>The interface \<^verbatim>\<open>Value\<close>. The field \<^verbatim>\<open>id\<close> is \<open>id_field\<close> here.\<close>

record Value =
  id_field :: string
  title :: string
  score :: real
  comparisonCount :: int
  tags :: string
  createdAt :: string
  updatedAt :: string
  rationale :: string

type_synonym files = "string \<rightharpoonup> Value list"

datatype error =
    NotValuesCsv string
  | TooFewValues
  | ResponsesRequired
  | InvalidResponse string
  | ValueNotFound string string

subsection \<open>File access\<close>

text \<open>\<^verbatim>\<open>validateFile\<close>: the path has to end with \<^verbatim>\<open>.values.csv\<close>.\<close>

definition validateFile :: "string \<Rightarrow> bool" where
  "validateFile filePath = suffix ''.values.csv'' filePath"

text \<open>\<^verbatim>\<open>readValues\<close>: a missing file reads as no rows.\<close>

definition readValues :: "files \<Rightarrow> string \<Rightarrow> Value list" where
  "readValues fs filePath = (case fs filePath of None \<Rightarrow> [] | Some rows \<Rightarrow> rows)"

definition writeValues :: "files \<Rightarrow> string \<Rightarrow> Value list \<Rightarrow> files" where
  "writeValues fs filePath values = fs(filePath \<mapsto> values)"

subsection \<open>The \<^verbatim>\<open>pairs\<close> command\<close>

text \<open>
  \<^verbatim>\<open>values.sort((a, b) => a.comparisonCount - b.comparisonCount)\<close>: the sort of
  JavaScript arrays is stable, as \<open>sort_key\<close> is.
\<close>

definition sort_values :: "Value list \<Rightarrow> Value list" where
  "sort_values values = sort_key comparisonCount values"

text \<open>
  \<^verbatim>\<open>xs.slice(0, e)\<close>: a negative end counts from the end of the array, and the end is
  clamped to the array.
\<close>

definition slice0 :: "'a list \<Rightarrow> int \<Rightarrow> 'a list" where
  "slice0 xs e =
     (let len = int (length xs);
          k = (if e < 0 then max (len + e) 0 else min e len)
      in take (nat k) xs)"

text \<open>
  The choice of the candidates, from the sorted array. It is only called on an array of
  at least two rows, so \<^verbatim>\<open>values[0]\<close> is in range.
\<close>

definition select_candidates :: "int \<Rightarrow> Value list \<Rightarrow> Value list" where
  "select_candidates num values =
     (let minCount = comparisonCount (values ! 0) in
      if minCount \<ge> 3 then values
      else
        (let candidates = filter (\<lambda>v. comparisonCount v = minCount) values in
         if int (length candidates) < num * 2
         then slice0 values (min (int (length values)) (num * 2))
         else candidates))"

text \<open>
  The shuffle loop \<^verbatim>\<open>for (let i = candidates.length - 1; i > 0; i--)\<close>, with the number
  \<open>k\<close> of calls of \<^verbatim>\<open>Math.random\<close> made so far, and the swap of the entries \<open>i\<close> and
  \<open>j\<close>. The product is exact here; rounded as a product of doubles it can give another
  index, which is again one of \<open>0, \<dots>, i\<close>.
\<close>

definition random_index :: "real \<Rightarrow> nat \<Rightarrow> nat" where
  "random_index r i = nat \<lfloor>r * real (i + 1)\<rfloor>"

fun shuffle_loop :: "(nat \<Rightarrow> real) \<Rightarrow> nat \<Rightarrow> nat \<Rightarrow> 'a list \<Rightarrow> 'a list" where
  "shuffle_loop rnd k 0 candidates = candidates"
| "shuffle_loop rnd k (Suc m) candidates =
     (let i = Suc m;
          j = random_index (rnd k) i
      in shuffle_loop rnd (Suc k) m (candidates[i := candidates ! j, j := candidates ! i]))"

definition shuffle :: "(nat \<Rightarrow> real) \<Rightarrow> 'a list \<Rightarrow> 'a list" where
  "shuffle rnd candidates = shuffle_loop rnd 0 (length candidates - 1) candidates"

text \<open>The contract of \<^verbatim>\<open>Math.random\<close>.\<close>

definition unit_interval :: "(nat \<Rightarrow> real) \<Rightarrow> bool" where
  "unit_interval rnd = (\<forall>k. 0 \<le> rnd k \<and> rnd k < 1)"

text \<open>
  The loop \<^verbatim>\<open>for (let i = 0; i < Math.min(num * 2, candidates.length - 1); i += 2)\<close>
  that pushes the pair of the entries \<open>i\<close> and \<open>i + 1\<close>.
\<close>

function pairs_loop :: "int \<Rightarrow> nat \<Rightarrow> 'a list \<Rightarrow> ('a \<times> 'a) list \<Rightarrow> ('a \<times> 'a) list" where
  "pairs_loop bound i candidates pairs =
     (if int i < bound
      then pairs_loop bound (i + 2) candidates (pairs @ [(candidates ! i, candidates ! (i + 1))])
      else pairs)"
  by pat_completeness auto
termination
  by (relation "measure (\<lambda>(bound, i, candidates, pairs). nat (bound - int i))") auto

declare pairs_loop.simps [simp del]

definition emit_pairs :: "int \<Rightarrow> 'a list \<Rightarrow> ('a \<times> 'a) list" where
  "emit_pairs num candidates =
     pairs_loop (min (num * 2) (int (length candidates) - 1)) 0 candidates []"

text \<open>The candidate pool of a list of rows, and the pairs made from it.\<close>

definition candidate_pool :: "int \<Rightarrow> Value list \<Rightarrow> Value list" where
  "candidate_pool num records = select_candidates num (sort_values records)"

definition selectPairs :: "(nat \<Rightarrow> real) \<Rightarrow> int \<Rightarrow> Value list \<Rightarrow> (Value \<times> Value) list" where
  "selectPairs rnd num records = emit_pairs num (shuffle rnd (candidate_pool num records))"

text \<open>
  The action of the command. Its result holds the pairs that are printed and the array
  \<^verbatim>\<open>values\<close> as the action leaves it: sorted in place, and shuffled as well when
  \<^verbatim>\<open>candidates\<close> is the same array (the case \<^verbatim>\<open>minCount >= 3\<close>; \<^verbatim>\<open>filter\<close> and \<^verbatim>\<open>slice\<close>
  make a new array). The second component is the file system after the command.
\<close>

record pairs_result =
  values_after :: "Value list"
  pairs_printed :: "(Value \<times> Value) list"

definition pairs_action ::
  "(nat \<Rightarrow> real) \<Rightarrow> files \<Rightarrow> string \<Rightarrow> int \<Rightarrow> (error + pairs_result) \<times> files" where
  "pairs_action rnd fs filePath num =
     (if \<not> validateFile filePath then (Inl (NotValuesCsv filePath), fs)
      else
        (let values0 = readValues fs filePath in
         if length values0 < 2 then (Inl TooFewValues, fs)
         else
           (let values1 = sort_values values0;
                minCount = comparisonCount (values1 ! 0);
                candidates0 = select_candidates num values1;
                candidates1 = shuffle rnd candidates0;
                values2 = (if minCount \<ge> 3 then candidates1 else values1);
                pairs = emit_pairs num candidates1
            in (Inr \<lparr>values_after = values2, pairs_printed = pairs\<rparr>, fs))))"

text \<open>The records of a list of pairs, in the order of the list.\<close>

fun paired :: "('a \<times> 'a) list \<Rightarrow> 'a list" where
  "paired [] = []"
| "paired ((a, b) # ps) = a # b # paired ps"

subsection \<open>JavaScript numbers\<close>

text \<open>
  A number of the source is an IEEE 754 double. The model holds the real value of a
  finite double, and \<^verbatim>\<open>+\<close> and \<^verbatim>\<open>-\<close> round the exact result to the nearest double, a tie
  to the one with the even significand.

  \<open>binade x\<close> is the exponent \<open>b\<close> with \<open>2 powi b \<le> \<bar>x\<bar> < 2 powi (b + 1)\<close>, for \<open>x \<noteq> 0\<close>.
  The doubles next to \<open>x\<close> are the multiples of \<open>2 powi e\<close> for \<open>e = binade x - 52\<close> (53
  bits of significand), and for \<open>e = - 1074\<close> in the subnormal range. The exponent has no
  upper bound here: a double is at most \<open>2 ^ 1024 - 2 ^ 971\<close>, and adding or subtracting
  10 or 1 stays below \<open>2 ^ 1024 - 2 ^ 970\<close>, where rounding would give an infinity.
\<close>

definition binade :: "real \<Rightarrow> int" where
  "binade x =
     (if 1 \<le> \<bar>x\<bar> then bitlen \<lfloor>\<bar>x\<bar>\<rfloor> - 1 else - bitlen (\<lceil>1 / \<bar>x\<bar>\<rceil> - 1))"

text \<open>The nearest integer, a tie to the even one.\<close>

definition round_even :: "real \<Rightarrow> int" where
  "round_even y =
     (let q = \<lfloor>y\<rfloor>; d = y - of_int q in
      if d < 1 / 2 then q else if 1 / 2 < d then q + 1 else if even q then q else q + 1)"

definition round_double :: "real \<Rightarrow> real" where
  "round_double x =
     (if x = 0 then 0
      else (let e = max (binade x - 52) (- 1074)
            in of_int (round_even (x / 2 powi e)) * 2 powi e))"

text \<open>\<^verbatim>\<open>x + y\<close> and \<^verbatim>\<open>x - y\<close> on numbers.\<close>

definition js_add :: "real \<Rightarrow> real \<Rightarrow> real" where
  "js_add x y = round_double (x + y)"

definition js_sub :: "real \<Rightarrow> real \<Rightarrow> real" where
  "js_sub x y = round_double (x - y)"

text \<open>
  \<^verbatim>\<open>c + d\<close> on numbers that are integers, as \<open>comparisonCount\<close> is after \<^verbatim>\<open>parseInt\<close>: the
  result is again an integer.
\<close>

definition count_add :: "int \<Rightarrow> int \<Rightarrow> int" where
  "count_add c d = \<lfloor>js_add (of_int c) (of_int d)\<rfloor>"

subsection \<open>The \<^verbatim>\<open>update-scores\<close> command\<close>

text \<open>\<^verbatim>\<open>s.split(c)\<close> for a separator of one character.\<close>

fun split_on :: "char \<Rightarrow> string \<Rightarrow> string list" where
  "split_on c [] = [Nil]"
| "split_on c (x # xs) =
     (let parts = split_on c xs in
      if x = c then [] # parts else (x # hd parts) # tl parts)"

text \<open>
  \<^verbatim>\<open>String.prototype.trim\<close> is a function of the language and not of the repository. The
  functions below take it as the parameter \<open>trim\<close>, so what is proved of them holds for
  every function in its place.

  \<open>trim_ws\<close> is that function on the strings of the model, whose code units are below
  256: it takes from both ends the code units that are white space or line terminators
  of ECMAScript, which in this range are U+0009 to U+000D, U+0020 and U+00A0.
\<close>

definition is_space :: "char \<Rightarrow> bool" where
  "is_space c =
     (c \<in> set [CHR 0x09, CHR 0x0A, CHR 0x0B, CHR 0x0C, CHR 0x0D, CHR 0x20, CHR 0xA0])"

definition trim_ws :: "string \<Rightarrow> string" where
  "trim_ws s = rev (dropWhile is_space (rev (dropWhile is_space s)))"

text \<open>
  \<^verbatim>\<open>const [winner, loser] = resp.split('>')\<close> and the test \<^verbatim>\<open>!winner || !loser\<close>: a
  missing part is \<^verbatim>\<open>undefined\<close>, and it and the empty string are falsy.
\<close>

definition parse_response :: "string \<Rightarrow> error + string \<times> string" where
  "parse_response resp =
     (case split_on CHR ''>'' resp of
        winner # loser # _ \<Rightarrow>
          if winner = [] \<or> loser = [] then Inl (InvalidResponse resp) else Inr (winner, loser)
      | _ \<Rightarrow> Inl (InvalidResponse resp))"

text \<open>
  \<^verbatim>\<open>values.find(p)\<close>: the first entry that satisfies \<open>p\<close>, as a reference (the index of
  the entry), or nothing.
\<close>

fun find_ref :: "('a \<Rightarrow> bool) \<Rightarrow> 'a list \<Rightarrow> nat option" where
  "find_ref p [] = None"
| "find_ref p (x # xs) = (if p x then Some 0 else map_option Suc (find_ref p xs))"

text \<open>An assignment to a field of the object behind a reference.\<close>

definition modify :: "nat \<Rightarrow> (Value \<Rightarrow> Value) \<Rightarrow> Value list \<Rightarrow> Value list" where
  "modify r f values = values[r := f (values ! r)]"

text \<open>
  The six assignments under the comment \<^verbatim>\<open>Elo-like update: winner +10, loser -10\<close>, in
  the order of the source, in the arithmetic of numbers. \<open>winValue\<close> and \<open>loseValue\<close> may
  be the same reference.
\<close>

definition elo_update :: "string \<Rightarrow> nat \<Rightarrow> nat \<Rightarrow> Value list \<Rightarrow> Value list" where
  "elo_update now winValue loseValue values =
     (let v1 = modify winValue (\<lambda>v. v\<lparr>score := js_add (score v) 10\<rparr>) values;
          v2 = modify loseValue (\<lambda>v. v\<lparr>score := js_sub (score v) 10\<rparr>) v1;
          v3 = modify winValue
                 (\<lambda>v. v\<lparr>comparisonCount := count_add (comparisonCount v) 1\<rparr>) v2;
          v4 = modify loseValue
                 (\<lambda>v. v\<lparr>comparisonCount := count_add (comparisonCount v) 1\<rparr>) v3;
          v5 = modify winValue (\<lambda>v. v\<lparr>updatedAt := now\<rparr>) v4;
          v6 = modify loseValue (\<lambda>v. v\<lparr>updatedAt := now\<rparr>) v5
      in v6)"

text \<open>The body of \<^verbatim>\<open>responses.forEach\<close>, for one response.\<close>

definition apply_response ::
  "(string \<Rightarrow> string) \<Rightarrow> string \<Rightarrow> string \<Rightarrow> Value list \<Rightarrow> error + Value list" where
  "apply_response trim now resp values =
     (case parse_response resp of
        Inl e \<Rightarrow> Inl e
      | Inr (winner, loser) \<Rightarrow>
          (case (find_ref (\<lambda>v. title v = trim winner) values,
                 find_ref (\<lambda>v. title v = trim loser) values) of
             (Some winValue, Some loseValue) \<Rightarrow> Inr (elo_update now winValue loseValue values)
           | _ \<Rightarrow> Inl (ValueNotFound winner loser)))"

text \<open>\<^verbatim>\<open>responses.forEach\<close>: the first response that fails ends the process.\<close>

fun forEach_response ::
  "(string \<Rightarrow> string) \<Rightarrow> string \<Rightarrow> string list \<Rightarrow> Value list \<Rightarrow> error + Value list" where
  "forEach_response trim now [] values = Inr values"
| "forEach_response trim now (resp # responses) values =
     (case apply_response trim now resp values of
        Inl e \<Rightarrow> Inl e
      | Inr values' \<Rightarrow> forEach_response trim now responses values')"

text \<open>
  The action of the command: the exit (an error, or nothing after a normal end) and the
  file system after the command. The option \<^verbatim>\<open>--responses\<close> is absent or a string, and
  the empty string is falsy.
\<close>

definition update_scores ::
  "(string \<Rightarrow> string) \<Rightarrow> string \<Rightarrow> files \<Rightarrow> string \<Rightarrow> string option \<Rightarrow> error option \<times> files"
  where
  "update_scores trim now fs filePath responses_opt =
     (if \<not> validateFile filePath then (Some (NotValuesCsv filePath), fs)
      else
        (case responses_opt of
           None \<Rightarrow> (Some ResponsesRequired, fs)
         | Some responses \<Rightarrow>
             if responses = [] then (Some ResponsesRequired, fs)
             else
               (case forEach_response trim now (split_on CHR '','' responses)
                       (readValues fs filePath) of
                  Inl e \<Rightarrow> (Some e, fs)
                | Inr values \<Rightarrow> (None, writeValues fs filePath values))))"

text \<open>
  Rows on which the arithmetic of \<open>m\<close> responses is exact: the score is an integer, and
  neither it nor the count leaves the range in which every integer is a double.
\<close>

definition exact_row :: "nat \<Rightarrow> Value \<Rightarrow> bool" where
  "exact_row m v =
     (real_of_int \<lfloor>score v\<rfloor> = score v \<and>
      \<bar>score v\<bar> + 10 * real m < 2 ^ 53 \<and>
      \<bar>comparisonCount v\<bar> + 2 * int m < 2 ^ 53)"

subsection \<open>Rows as the \<^verbatim>\<open>add\<close> command makes them\<close>

text \<open>
  The object \<^verbatim>\<open>newValue\<close> of the \<^verbatim>\<open>add\<close> command. The identifier (\<^verbatim>\<open>generateId\<close>, a time
  stamp and a slug of the title) is a parameter, and an option that is absent is the
  empty string, as \<^verbatim>\<open>options.tags || ''\<close> makes it.
\<close>

definition newValue :: "string \<Rightarrow> string \<Rightarrow> string \<Rightarrow> string \<Rightarrow> string \<Rightarrow> Value" where
  "newValue now ident t tgs desc =
     \<lparr>id_field = ident, title = t, score = 1500, comparisonCount = 0, tags = tgs,
      createdAt = now, updatedAt = now, rationale = desc\<rparr>"

text \<open>Four rows for the examples; the last one has the title of the first.\<close>

definition life :: Value where
  "life = newValue ''t0'' ''1-life'' ''Life'' [] []"

definition health :: Value where
  "health = (newValue ''t0'' ''2-health'' ''Health'' [] [])\<lparr>comparisonCount := 1\<rparr>"

definition reason :: Value where
  "reason = newValue ''t0'' ''3-reason'' ''Reason'' [] []"

definition life_again :: Value where
  "life_again = newValue ''t0'' ''4-life'' ''Life'' [] []"

subsection \<open>The selection policy in the words of the specification\<close>

text \<open>
  The policy of the specification, to compare \<open>candidate_pool\<close> with: \<open>minCount\<close> is the
  minimum of \<open>comparisonCount\<close> over all records. If it is at least 3, the pool is the
  whole record set. Otherwise the pool is the cohort of the records whose count is the
  minimum, and if the cohort has fewer than \<open>2 * n\<close> members, the \<open>2 * n\<close> records with the
  lowest count, in ascending order of the count, ties in the original order (all the
  records when there are fewer than \<open>2 * n\<close>).
\<close>

definition spec_minCount :: "Value list \<Rightarrow> int" where
  "spec_minCount records = Min (comparisonCount ` set records)"

definition spec_pool :: "int \<Rightarrow> Value list \<Rightarrow> Value list" where
  "spec_pool n records =
     (let cohort = filter (\<lambda>v. comparisonCount v = spec_minCount records) records in
      if spec_minCount records \<ge> 3 then records
      else if int (length cohort) < 2 * n
        then take (nat (2 * n)) (sort_key comparisonCount records)
        else cohort)"


section \<open>Properties\<close>

subsection \<open>The shuffle and the pair loop\<close>

lemma length_shuffle_loop: "length (shuffle_loop rnd k i xs) = length xs"
  by (induction i arbitrary: k xs) (simp_all add: Let_def)

lemma length_shuffle: "length (shuffle rnd xs) = length xs"
  by (simp add: shuffle_def length_shuffle_loop)

lemma random_index_le:
  assumes "0 \<le> r" and "r < 1"
  shows "random_index r i \<le> i"
proof -
  have "r * real (i + 1) < real (i + 1)"
    using assms by simp
  then have "\<lfloor>r * real (i + 1)\<rfloor> < int (i + 1)"
    by (simp add: floor_less_iff)
  then show ?thesis
    unfolding random_index_def by linarith
qed

lemma mset_shuffle_loop:
  "unit_interval rnd \<Longrightarrow> i < length xs \<Longrightarrow> mset (shuffle_loop rnd k i xs) = mset xs"
proof (induction i arbitrary: k xs)
  case 0
  then show ?case by simp
next
  case (Suc m)
  let ?j = "random_index (rnd k) (Suc m)"
  have j: "?j \<le> Suc m"
    using Suc.prems(1) by (simp add: unit_interval_def random_index_le)
  then have jl: "?j < length xs"
    using Suc.prems(2) by simp
  have sw: "mset (xs[Suc m := xs ! ?j, ?j := xs ! Suc m]) = mset xs"
    using mset_swap [OF jl Suc.prems(2)] .
  have "mset (shuffle_loop rnd (Suc k) m (xs[Suc m := xs ! ?j, ?j := xs ! Suc m]))
        = mset (xs[Suc m := xs ! ?j, ?j := xs ! Suc m])"
    using Suc.prems by (intro Suc.IH) simp_all
  with sw show ?case by (simp add: Let_def)
qed

lemma mset_shuffle: "unit_interval rnd \<Longrightarrow> mset (shuffle rnd xs) = mset xs"
proof (cases xs)
  case Nil
  then show ?thesis by (simp add: shuffle_def)
next
  case (Cons x ys)
  assume "unit_interval rnd"
  then show ?thesis
    unfolding shuffle_def by (rule mset_shuffle_loop) (simp add: Cons)
qed

lemma length_pairs_loop:
  "int (length (pairs_loop b i c acc)) =
     int (length acc) + (if int i < b then (b - int i + 1) div 2 else 0)"
proof (induction b i c acc rule: pairs_loop.induct)
  case (1 bound i candidates pairs)
  show ?case
  proof (cases "int i < bound")
    case True
    with 1 show ?thesis
      by (subst pairs_loop.simps) (auto simp: algebra_simps)
  next
    case False
    then show ?thesis by (subst pairs_loop.simps) simp
  qed
qed

lemma paired_append: "paired (ps @ qs) = paired ps @ paired qs"
  by (induction ps rule: paired.induct) simp_all

lemma paired_pairs_loop:
  "b \<le> int (length c) - 1 \<Longrightarrow>
   paired (pairs_loop b i c acc) =
     paired acc @ take (2 * nat (if int i < b then (b - int i + 1) div 2 else 0)) (drop i c)"
proof (induction b i c acc rule: pairs_loop.induct)
  case (1 bound i candidates pairs)
  show ?case
  proof (cases "int i < bound")
    case True
    then have il: "Suc i < length candidates"
      using "1.prems" by linarith
    have d: "drop i candidates = candidates ! i # candidates ! (Suc i) # drop (i + 2) candidates"
      using il by (simp add: Cons_nth_drop_Suc Suc_lessD)
    have n: "2 * nat ((bound - int i + 1) div 2) =
             Suc (Suc (2 * nat (if int (i + 2) < bound then (bound - int (i + 2) + 1) div 2 else 0)))"
    proof (cases "int (i + 2) < bound")
      case True
      have "(bound - int i + 1) div 2 = (bound - int (i + 2) + 1) div 2 + 1"
        by simp
      moreover have "0 \<le> (bound - int (i + 2) + 1) div 2"
        using True by simp
      ultimately show ?thesis
        using True by (simp add: nat_add_distrib)
    next
      case False
      then have "(bound - int i + 1) div 2 = 1"
        using True by simp
      then show ?thesis
        using False by simp
    qed
    have "paired (pairs_loop bound i candidates pairs) =
          paired (pairs_loop bound (i + 2) candidates (pairs @ [(candidates ! i, candidates ! (i + 1))]))"
      using True by (subst pairs_loop.simps) simp
    also have "\<dots> = paired (pairs @ [(candidates ! i, candidates ! (i + 1))]) @
          take (2 * nat (if int (i + 2) < bound then (bound - int (i + 2) + 1) div 2 else 0))
               (drop (i + 2) candidates)"
      using True "1.prems" by (intro "1.IH") simp_all
    finally show ?thesis
      using True by (simp only: n d if_True) (simp add: paired_append)
  next
    case False
    then show ?thesis by (subst pairs_loop.simps) simp
  qed
qed

subsection \<open>The candidate pool\<close>

lemma sort_key_head_Min:
  fixes f :: "'a \<Rightarrow> int"
  assumes "xs \<noteq> []"
  shows "f (sort_key f xs ! 0) = Min (f ` set xs)"
proof -
  obtain y ys where ys: "sort_key f xs = y # ys"
    using assms by (cases "sort_key f xs") (auto dest: arg_cong [where f = length])
  have "sorted (map f (y # ys))"
    using sorted_sort_key [of f xs] by (simp add: ys)
  then have le: "\<forall>z \<in> set (y # ys). f y \<le> f z"
    by auto
  have s: "set (y # ys) = set xs"
    using set_sort [of f xs] by (simp add: ys)
  have "Min (f ` set xs) = f y"
  proof (rule Min_eqI)
    show "finite (f ` set xs)" by simp
    show "\<And>z. z \<in> f ` set xs \<Longrightarrow> f y \<le> z"
      using le s by auto
    show "f y \<in> f ` set xs"
      using s by auto
  qed
  then show ?thesis by (simp add: ys)
qed

lemma minCount_sort_values:
  "records \<noteq> [] \<Longrightarrow> comparisonCount (sort_values records ! 0) = spec_minCount records"
  by (simp add: sort_values_def spec_minCount_def sort_key_head_Min)

lemma slice0_take: "0 \<le> e \<Longrightarrow> slice0 xs e = take (nat e) xs"
  by (simp add: slice0_def Let_def min_def)

lemma mset_take_subseteq: "mset (take m xs) \<subseteq># mset xs"
proof -
  have "mset (take m xs) \<subseteq># mset (take m xs) + mset (drop m xs)"
    by simp
  then show ?thesis
    by (simp flip: mset_append)
qed

lemma mset_slice0_subseteq: "mset (slice0 xs e) \<subseteq># mset xs"
  by (simp add: slice0_def Let_def mset_take_subseteq)

lemma mset_select_candidates: "mset (select_candidates num values) \<subseteq># mset values"
  by (simp add: select_candidates_def Let_def mset_slice0_subseteq)

lemma distinct_select_candidates: "distinct values \<Longrightarrow> distinct (select_candidates num values)"
  by (simp add: select_candidates_def Let_def slice0_def)

lemma length_select_candidates:
  assumes "2 \<le> length values" and "1 \<le> num"
  shows "2 \<le> length (select_candidates num values)"
proof -
  have e: "0 \<le> min (int (length values)) (num * 2)"
    using assms by simp
  have "2 \<le> length (slice0 values (min (int (length values)) (num * 2)))"
    using assms by (simp add: slice0_take [OF e])
  moreover have "2 \<le> length (filter p values)" if "\<not> int (length (filter p values)) < num * 2" for p
    using that assms(2) by linarith
  ultimately show ?thesis
    using assms(1) by (simp add: select_candidates_def Let_def)
qed

lemma mset_candidate_pool: "mset (candidate_pool num records) \<subseteq># mset records"
  using mset_select_candidates [of num "sort_values records"]
  by (simp add: candidate_pool_def sort_values_def)

lemma distinct_candidate_pool: "distinct records \<Longrightarrow> distinct (candidate_pool num records)"
  by (simp add: candidate_pool_def sort_values_def distinct_select_candidates)

lemma length_candidate_pool:
  "2 \<le> length records \<Longrightarrow> 1 \<le> num \<Longrightarrow> 2 \<le> length (candidate_pool num records)"
  by (simp add: candidate_pool_def sort_values_def length_select_candidates)

lemma length_emit_pairs:
  assumes "0 \<le> num"
  shows "int (length (emit_pairs num c)) = min num (int (length c) div 2)"
proof -
  let ?b = "min (num * 2) (int (length c) - 1)"
  have "int (length (emit_pairs num c)) = (if 0 < ?b then (?b + 1) div 2 else 0)"
    using length_pairs_loop [of ?b 0 c "[]"] by (simp add: emit_pairs_def)
  also have "\<dots> = min num (int (length c) div 2)"
    using assms by (simp add: min_def) presburger
  finally show ?thesis .
qed

lemma paired_emit_pairs:
  "\<exists>m. paired (emit_pairs num c) = take m c"
proof -
  let ?b = "min (num * 2) (int (length c) - 1)"
  have "?b \<le> int (length c) - 1" by simp
  from paired_pairs_loop [OF this, of 0 "[]"] show ?thesis
    by (auto simp: emit_pairs_def)
qed

subsection \<open>Numbers\<close>

lemma binade_eq:
  assumes "2 powi b \<le> \<bar>x\<bar>" and "\<bar>x\<bar> < 2 powi (b + 1)"
  shows "binade x = b"
proof (cases "0 \<le> b")
  case True
  then have p: "(2::real) powi b = 2 ^ nat b" "(2::real) powi (b + 1) = 2 ^ nat (b + 1)"
    by (simp_all add: power_int_def)
  have one: "1 \<le> \<bar>x\<bar>"
    using assms(1) p(1) one_le_power [of "2::real" "nat b"] by linarith
  let ?n = "\<lfloor>\<bar>x\<bar>\<rfloor>"
  have lo: "2 ^ nat b \<le> ?n"
    using assms(1) p(1) by (simp add: le_floor_iff)
  have hi: "?n < 2 ^ nat (b + 1)"
    using assms(2) p(2) by (simp add: floor_less_iff)
  have "bitlen ?n \<le> b + 1"
    using hi True by (simp add: bitlen_le_iff_power)
  moreover have "\<not> bitlen ?n \<le> b"
    using lo True by (simp add: bitlen_le_iff_power)
  ultimately have "bitlen ?n = b + 1" by simp
  then show ?thesis
    using one by (simp add: binade_def)
next
  case False
  define k where "k = nat (- b)"
  have k: "b = - int k" "1 \<le> k"
    using False by (simp_all add: k_def)
  have p: "(2::real) powi b = 1 / 2 ^ k" "(2::real) powi (b + 1) = 1 / 2 ^ (k - 1)"
    using k by (simp_all add: power_int_def field_simps nat_diff_distrib')
  have pos: "0 < \<bar>x\<bar>"
    using assms(1) p(1) by (smt (verit) divide_pos_pos zero_less_power)
  have lt1: "\<bar>x\<bar> < 1"
    using assms(2) p(2) one_le_power [of "2::real" "k - 1"]
    by (smt (verit) divide_le_eq_1_pos zero_less_power)
  let ?m = "\<lceil>1 / \<bar>x\<bar>\<rceil>"
  have a1: "1 / 2 ^ k \<le> \<bar>x\<bar>"
    using assms(1) by (simp only: p(1))
  have a2: "\<bar>x\<bar> < 1 / 2 ^ (k - 1)"
    using assms(2) by (simp only: p(2))
  have y1: "1 / \<bar>x\<bar> \<le> 2 ^ k"
    using a1 pos by (simp add: field_simps)
  have y2: "2 ^ (k - 1) < 1 / \<bar>x\<bar>"
    using a2 pos by (simp add: field_simps)
  have hi: "?m \<le> 2 ^ k"
    using y1 by (simp add: ceiling_le_iff)
  have lo: "2 ^ (k - 1) < ?m"
    using y2 by (simp add: less_ceiling_iff)
  have "bitlen (?m - 1) \<le> int k"
    using hi by (simp add: bitlen_le_iff_power)
  moreover have "\<not> bitlen (?m - 1) \<le> int (k - 1)"
    using lo by (simp add: bitlen_le_iff_power)
  ultimately have "bitlen (?m - 1) = int k"
    using k(2) by linarith
  then show ?thesis
    using lt1 k(1) by (simp add: binade_def)
qed

lemma round_even_of_int: "round_even (of_int m) = m"
  by (simp add: round_even_def)

lemma round_even_nearest: "\<bar>real_of_int (round_even y) - y\<bar> \<le> 1 / 2"
  by (simp add: round_even_def Let_def)

lemma round_double_of_int:
  assumes "\<bar>n\<bar> < 2 ^ 53"
  shows "round_double (of_int n) = of_int n"
proof (cases "n = 0")
  case True
  then show ?thesis by (simp add: round_double_def)
next
  case False
  have "bitlen \<bar>n\<bar> \<le> 53"
    using assms by (simp add: bitlen_le_iff_power)
  moreover have "1 \<le> \<bar>real_of_int n\<bar>"
  proof -
    have "1 \<le> \<bar>n\<bar>" using False by linarith
    then have "1 \<le> real_of_int \<bar>n\<bar>" by simp
    then show ?thesis by simp
  qed
  ultimately have b: "binade (of_int n) \<le> 52"
    by (simp add: binade_def flip: of_int_abs)
  define e where "e = max (binade (of_int n) - 52) (- 1074)"
  have "e \<le> 0" using b by (simp add: e_def)
  then obtain k where k: "e = - int k"
    by (metis nat_0_le neg_le_0_iff_le minus_minus)
  have "real_of_int n / 2 powi e = of_int (n * 2 ^ k)"
    by (simp add: k power_int_minus field_simps)
  then have "of_int (round_even (real_of_int n / 2 powi e)) * 2 powi e = real_of_int n"
    by (simp only: round_even_of_int) (simp add: k power_int_minus)
  then show ?thesis
    using False by (simp add: round_double_def Let_def e_def)
qed

lemma js_add_exact:
  assumes "x \<in> \<int>" and "y \<in> \<int>" and "\<bar>x + y\<bar> < 2 ^ 53"
  shows "js_add x y = x + y"
proof -
  obtain a b where ab: "x = of_int a" "y = of_int b"
    using assms(1,2) by (auto elim!: Ints_cases)
  have "\<bar>a + b\<bar> < 2 ^ 53"
    using assms(3) unfolding ab
    by (metis of_int_add of_int_abs of_int_less_iff of_int_numeral of_int_power)
  then have "round_double (of_int (a + b)) = of_int (a + b)"
    by (rule round_double_of_int)
  then show ?thesis
    by (simp add: js_add_def ab)
qed

lemma js_sub_exact:
  assumes "x \<in> \<int>" and "y \<in> \<int>" and "\<bar>x - y\<bar> < 2 ^ 53"
  shows "js_sub x y = x - y"
proof -
  have "js_add x (- y) = x + (- y)"
    using assms by (intro js_add_exact) simp_all
  then show ?thesis
    by (simp add: js_add_def js_sub_def)
qed

lemma count_add_exact:
  assumes "\<bar>c + d\<bar> < 2 ^ 53"
  shows "count_add c d = c + d"
proof -
  have "\<bar>real_of_int c + real_of_int d\<bar> < 2 ^ 53"
    using assms by (metis of_int_add of_int_abs of_int_less_iff of_int_numeral of_int_power)
  then have "js_add (of_int c) (of_int d) = of_int c + of_int d"
    by (intro js_add_exact) simp_all
  then show ?thesis
    by (simp add: count_add_def)
qed

lemma exact_row_arith:
  assumes "exact_row (Suc m) v"
  shows "js_add (score v) 10 = score v + 10"
    and "js_sub (score v) 10 = score v - 10"
    and "js_sub (score v + 10) 10 = score v"
    and "count_add (comparisonCount v) 1 = comparisonCount v + 1"
    and "count_add (comparisonCount v + 1) 1 = comparisonCount v + 2"
proof -
  have i: "score v \<in> \<int>"
    using assms by (metis exact_row_def Ints_of_int)
  have s: "\<bar>score v\<bar> + 10 < 2 ^ 53"
    using assms by (simp add: exact_row_def)
  have c: "\<bar>comparisonCount v\<bar> + 2 < 2 ^ 53"
    using assms by (simp add: exact_row_def)
  have ten: "(10::real) \<in> \<int>" by simp
  have p: "\<bar>score v + 10\<bar> < 2 ^ 53" using s by linarith
  have q: "\<bar>score v - 10\<bar> < 2 ^ 53" using s by linarith
  have z: "\<bar>score v + 10 - 10\<bar> < 2 ^ 53" using s by linarith
  show "js_add (score v) 10 = score v + 10"
    using i ten p by (rule js_add_exact)
  show "js_sub (score v) 10 = score v - 10"
    using i ten q by (rule js_sub_exact)
  have "score v + 10 \<in> \<int>"
    using i ten by (rule Ints_add)
  then have "js_sub (score v + 10) 10 = score v + 10 - 10"
    using ten z by (rule js_sub_exact)
  then show "js_sub (score v + 10) 10 = score v" by simp
  have c1: "\<bar>comparisonCount v + 1\<bar> < 2 ^ 53" using c by linarith
  have c2: "\<bar>comparisonCount v + 1 + 1\<bar> < 2 ^ 53" using c by linarith
  show "count_add (comparisonCount v) 1 = comparisonCount v + 1"
    using c1 by (rule count_add_exact)
  show "count_add (comparisonCount v + 1) 1 = comparisonCount v + 2"
    using count_add_exact [OF c2] by simp
qed

lemma exact_row_mono: "exact_row (Suc m) v \<Longrightarrow> exact_row m v"
  by (simp add: exact_row_def)



subsection \<open>Responses\<close>

lemma find_ref_Some:
  "find_ref p xs = Some r \<Longrightarrow> r < length xs \<and> p (xs ! r) \<and> (\<forall>k<r. \<not> p (xs ! k))"
proof (induction xs arbitrary: r)
  case Nil
  then show ?case by simp
next
  case (Cons x xs)
  show ?case
  proof (cases "p x")
    case True
    with Cons.prems show ?thesis by simp
  next
    case False
    with Cons.prems obtain r' where r': "find_ref p xs = Some r'" "r = Suc r'"
      by auto
    from Cons.IH [OF r'(1)] False show ?thesis
      by (auto simp: r'(2) nth_Cons split: nat.splits)
  qed
qed

lemma find_ref_None: "(find_ref p xs = None) = (\<forall>x \<in> set xs. \<not> p x)"
  by (induction xs) auto


lemma filter_one_find_ref:
  "length (filter p xs) = 1 \<Longrightarrow> \<exists>r. find_ref p xs = Some r"
  by (cases "find_ref p xs") (auto simp: find_ref_None filter_empty_conv [THEN iffD2])

lemma length_modify: "length (modify r f values) = length values"
  by (simp add: modify_def)

lemma nth_modify:
  "k < length values \<Longrightarrow> modify r f values ! k = (if k = r then f (values ! k) else values ! k)"
  by (simp add: modify_def nth_list_update)

lemma apply_response_Inr:
  assumes "apply_response trim now resp values = Inr values'"
  shows "\<exists>winner loser w l.
           parse_response resp = Inr (winner, loser) \<and>
           find_ref (\<lambda>v. title v = trim winner) values = Some w \<and>
           find_ref (\<lambda>v. title v = trim loser) values = Some l \<and>
           values' = elo_update now w l values"
  using assms
  by (auto simp: apply_response_def Let_def split: sum.splits option.splits prod.splits)

lemma apply_response_found:
  assumes "parse_response resp = Inr (winner, loser)"
    and "find_ref (\<lambda>v. title v = trim winner) values = Some w"
    and "find_ref (\<lambda>v. title v = trim loser) values = Some l"
  shows "apply_response trim now resp values = Inr (elo_update now w l values)"
  using assms by (simp add: apply_response_def)

lemma apply_response_missing:
  assumes "parse_response resp = Inr (winner, loser)"
    and "find_ref (\<lambda>v. title v = trim winner) values = None \<or>
         find_ref (\<lambda>v. title v = trim loser) values = None"
  shows "apply_response trim now resp values = Inl (ValueNotFound winner loser)"
  using assms by (auto simp: apply_response_def split: option.splits)

lemma length_elo_update: "length (elo_update now w l values) = length values"
  by (simp add: elo_update_def Let_def length_modify)

text \<open>What the six assignments make of the entry \<open>k\<close> of the array.\<close>

lemma nth_elo_update:
  assumes "k < length values"
  shows "elo_update now w l values ! k =
     (values ! k)
       \<lparr>score :=
          (if k = l
           then js_sub (if k = w then js_add (score (values ! k)) 10 else score (values ! k)) 10
           else if k = w then js_add (score (values ! k)) 10 else score (values ! k)),
        comparisonCount :=
          (if k = l
           then count_add (if k = w then count_add (comparisonCount (values ! k)) 1
                           else comparisonCount (values ! k)) 1
           else if k = w then count_add (comparisonCount (values ! k)) 1
                else comparisonCount (values ! k)),
        updatedAt := (if k = w \<or> k = l then now else updatedAt (values ! k))\<rparr>"
  using assms by (simp add: elo_update_def Let_def nth_modify length_modify)


lemma title_elo_update: "map title (elo_update now w l values) = map title values"
  by (rule nth_equalityI) (simp_all add: length_elo_update nth_elo_update)

lemma title_apply_response:
  "apply_response trim now resp values = Inr values' \<Longrightarrow> map title values' = map title values"
  by (auto dest!: apply_response_Inr simp: title_elo_update)

lemma forEach_response_fails:
  assumes "resp \<in> set responses"
    and "parse_response resp = Inr (winner, loser)"
    and "trim winner \<notin> set (map title values) \<or> trim loser \<notin> set (map title values)"
  shows "\<exists>e. forEach_response trim now responses values = Inl e"
  using assms
proof (induction responses arbitrary: "values")
  case Nil
  then show ?case by simp
next
  case (Cons r rs)
  show ?case
  proof (cases "apply_response trim now r values")
    case (Inl e)
    then show ?thesis by simp
  next
    case (Inr values')
    have t: "map title values' = map title values"
      using Inr by (rule title_apply_response)
    have "r \<noteq> resp"
    proof
      assume "r = resp"
      moreover have "find_ref (\<lambda>v. title v = trim winner) values = None \<or>
                     find_ref (\<lambda>v. title v = trim loser) values = None"
        using Cons.prems(3) by (auto simp: find_ref_None image_iff)
      ultimately have "apply_response trim now r values = Inl (ValueNotFound winner loser)"
        using Cons.prems(2) by (simp add: apply_response_missing)
      with Inr show False by simp
    qed
    then have "resp \<in> set rs"
      using Cons.prems(1) by simp
    then have "\<exists>e. forEach_response trim now rs values' = Inl e"
      using Cons.prems(2,3) by (intro Cons.IH) (simp_all add: t)
    then show ?thesis
      by (simp add: Inr)
  qed
qed

subsection \<open>Claims about the \<^verbatim>\<open>pairs\<close> command\<close>

lemma unit_interval_half: "unit_interval (\<lambda>k. 1 / 2)"
  by (simp add: unit_interval_def)

lemma candidate_pool_sample: "candidate_pool 1 [life, health, reason] = [life, reason]"
  by (simp add: candidate_pool_def select_candidates_def sort_values_def life_def health_def
      reason_def newValue_def)

lemma candidate_pool_sample_extended: "candidate_pool 2 [life, health, reason] = [life, reason, health]"
  by (simp add: candidate_pool_def select_candidates_def sort_values_def slice0_def life_def
      health_def reason_def newValue_def)

lemma shuffle_sample: "shuffle (\<lambda>k. 1 / 2) [life, reason, health] = [life, health, reason]"
  by (simp add: shuffle_def random_index_def numeral_2_eq_2)

lemma selectPairs_sample: "selectPairs (\<lambda>k. 1 / 2) 2 [life, health, reason] = [(life, health)]"
  by (simp add: selectPairs_def candidate_pool_sample_extended shuffle_sample emit_pairs_def
      pairs_loop.simps)

lemma distinct_sample: "distinct [life, health, reason]"
  by (simp add: life_def health_def reason_def newValue_def)

text \<open>
  Claim C2. For every list of at least two records and every \<open>n \<ge> 1\<close>, the number of
  pairs that \<open>selectPairs\<close> returns is the minimum of \<open>n\<close> and half the size of the
  candidate pool, rounded down.
\<close>

theorem selectPairs_length:
  "2 \<le> length records \<Longrightarrow> 1 \<le> n \<Longrightarrow>
   int (length (selectPairs rnd n records)) =
     min n (int (length (candidate_pool n records)) div 2)"
  by (simp add: selectPairs_def length_emit_pairs length_shuffle)

theorem selectPairs_length_witness:
  "2 \<le> length [life, health, reason] \<and> (1::int) \<le> 2 \<and>
   int (length (selectPairs (\<lambda>k. 1 / 2) 2 [life, health, reason])) =
     min 2 (int (length (candidate_pool 2 [life, health, reason])) div 2)"
proof -
  have h1: "2 \<le> length [life, health, reason]" by simp
  have h2: "(1::int) \<le> 2" by simp
  show ?thesis
    by (intro conjI h1 h2 selectPairs_length [OF h1 h2])
qed

text \<open>
  Claim C3. For every list of at least two records and every \<open>n \<ge> 1\<close>, the candidate
  pool of the code is the pool of the specification: it holds the same records as
  \<open>spec_pool\<close>, each as often, and when the minimum count is below 3 it is the same list,
  so the cohort in the original order or, when the cohort has fewer than \<open>2 * n\<close> members,
  the first \<open>2 * n\<close> records of the stable ascending sort by \<open>comparisonCount\<close>.
\<close>

theorem candidate_pool_policy:
  assumes "2 \<le> length records" and "1 \<le> n"
  shows "mset (candidate_pool n records) = mset (spec_pool n records) \<and>
         (spec_minCount records < 3 \<longrightarrow> candidate_pool n records = spec_pool n records)"
proof -
  have ne: "records \<noteq> []" using assms(1) by auto
  have mc: "comparisonCount (sort_values records ! 0) = spec_minCount records"
    using ne by (simp add: sort_values_def spec_minCount_def sort_key_head_Min)
  have st: "filter (\<lambda>v. comparisonCount v = k) (sort_values records) =
            filter (\<lambda>v. comparisonCount v = k) records" for k
    by (simp add: sort_values_def sort_key_stable)
  let ?s = "sort_values records"
  have "slice0 ?s (min (int (length ?s)) (n * 2)) = take (nat (min (int (length ?s)) (n * 2))) ?s"
    using assms by (intro slice0_take) simp
  also have "\<dots> = take (nat (2 * n)) ?s"
    by (cases "int (length ?s) \<le> n * 2") (simp_all add: min_def mult.commute)
  finally have sl: "slice0 ?s (min (int (length ?s)) (n * 2)) =
            take (nat (2 * n)) (sort_key comparisonCount records)"
    by (simp add: sort_values_def)
  show ?thesis
    by (simp add: candidate_pool_def select_candidates_def spec_pool_def Let_def mc st sl
        mult.commute) (simp add: sort_values_def)
qed

theorem candidate_pool_policy_witness:
  "2 \<le> length [life, health, reason] \<and> (1::int) \<le> 2 \<and>
   spec_minCount [life, health, reason] < 3 \<and>
   mset (candidate_pool 2 [life, health, reason]) = mset (spec_pool 2 [life, health, reason]) \<and>
   candidate_pool 2 [life, health, reason] = spec_pool 2 [life, health, reason] \<and>
   spec_pool 2 [life, health, reason] = [life, reason, health]"
proof -
  have h1: "2 \<le> length [life, health, reason]" by simp
  have h2: "(1::int) \<le> 2" by simp
  have h3: "spec_minCount [life, health, reason] < 3"
    by (simp add: spec_minCount_def life_def health_def reason_def newValue_def)
  note t = candidate_pool_policy [OF h1 h2]
  have c1: "mset (candidate_pool 2 [life, health, reason]) = mset (spec_pool 2 [life, health, reason])"
    using t by (rule conjunct1)
  have c2: "candidate_pool 2 [life, health, reason] = spec_pool 2 [life, health, reason]"
    using t h3 by blast
  have c3: "spec_pool 2 [life, health, reason] = [life, reason, health]"
    using c2 candidate_pool_sample_extended by simp
  show ?thesis
    by (intro conjI h1 h2 h3 c1 c2 c3)
qed

text \<open>
  Claim C5. For every list of at least two records and every \<open>n \<ge> 1\<close>, the records of
  the returned pairs, taken together, occur no more often than in the list of records.
  Every element of the array \<^verbatim>\<open>values\<close> is an object of its own; when the rows are told
  apart as values as well (\<open>distinct records\<close>), no record is in two pairs or twice in one
  pair.
\<close>

theorem selectPairs_disjoint:
  assumes "2 \<le> length records" and "1 \<le> n" and "unit_interval rnd"
  shows "mset (paired (selectPairs rnd n records)) \<subseteq># mset records \<and>
         (distinct records \<longrightarrow> distinct (paired (selectPairs rnd n records)))"
proof -
  let ?c = "shuffle rnd (candidate_pool n records)"
  obtain m where m: "paired (selectPairs rnd n records) = take m ?c"
    using paired_emit_pairs [of n ?c] by (auto simp: selectPairs_def)
  have c: "mset ?c = mset (candidate_pool n records)"
    using assms(3) by (rule mset_shuffle)
  have "mset (take m ?c) \<subseteq># mset ?c"
    by (rule mset_take_subseteq)
  also have "mset ?c \<subseteq># mset records"
    by (simp add: c mset_candidate_pool)
  finally have 1: "mset (paired (selectPairs rnd n records)) \<subseteq># mset records"
    by (simp add: m)
  have 2: "distinct (paired (selectPairs rnd n records))" if "distinct records"
  proof -
    have "distinct (candidate_pool n records)"
      using that by (rule distinct_candidate_pool)
    then have "distinct ?c"
      using mset_eq_imp_distinct_iff [OF c] by simp
    then show ?thesis by (simp add: m)
  qed
  from 1 2 show ?thesis by blast
qed

theorem selectPairs_disjoint_witness:
  "2 \<le> length [life, health, reason] \<and> (1::int) \<le> 2 \<and> unit_interval (\<lambda>k. 1 / 2) \<and>
   distinct [life, health, reason] \<and>
   mset (paired (selectPairs (\<lambda>k. 1 / 2) 2 [life, health, reason]))
     \<subseteq># mset [life, health, reason] \<and>
   distinct (paired (selectPairs (\<lambda>k. 1 / 2) 2 [life, health, reason]))"
proof -
  have h1: "2 \<le> length [life, health, reason]" by simp
  have h2: "(1::int) \<le> 2" by simp
  note t = selectPairs_disjoint [OF h1 h2 unit_interval_half]
  have c1: "mset (paired (selectPairs (\<lambda>k. 1 / 2) 2 [life, health, reason]))
     \<subseteq># mset [life, health, reason]"
    using t by (rule conjunct1)
  have c2: "distinct (paired (selectPairs (\<lambda>k. 1 / 2) 2 [life, health, reason]))"
    using t distinct_sample by blast
  show ?thesis
    by (intro conjI h1 h2 unit_interval_half distinct_sample c1 c2)
qed

text \<open>
  Claim C7. On exactly two records, \<open>selectPairs\<close> returns exactly one pair, for every
  \<open>n \<ge> 1\<close> and whatever the two counts are.
\<close>

theorem selectPairs_two_records:
  assumes "length records = 2" and "1 \<le> n"
  shows "length (selectPairs rnd n records) = 1"
proof -
  have "2 \<le> length (candidate_pool n records)"
    using assms by (simp add: length_candidate_pool)
  moreover have "length (candidate_pool n records) \<le> 2"
    using size_mset_mono [OF mset_candidate_pool [of n records]] assms(1) by simp
  ultimately have p: "length (candidate_pool n records) = 2" by simp
  have "int (length (selectPairs rnd n records)) =
        min n (int (length (candidate_pool n records)) div 2)"
    using assms(2) by (simp add: selectPairs_def length_emit_pairs length_shuffle)
  with p assms(2) show ?thesis by simp
qed

theorem selectPairs_two_records_witness:
  "length [health, life] = 2 \<and> (1::int) \<le> 5 \<and>
   length (selectPairs (\<lambda>k. 1 / 2) 5 [health, life]) = 1"
proof -
  have h1: "length [health, life] = 2" by simp
  have h2: "(1::int) \<le> 5" by simp
  show ?thesis
    by (intro conjI h1 h2 selectPairs_two_records [OF h1 h2])
qed

text \<open>
  Claim C8. The \<^verbatim>\<open>pairs\<close> command only reads the records: it leaves the file system as
  it was, the array \<^verbatim>\<open>values\<close> holds at its end the rows that were read, each as often and
  with every field as it was (only their order in the array changes), and the records of
  the pairs are rows that were read.
\<close>

theorem pairs_action_read_only:
  assumes "unit_interval rnd"
  shows "snd (pairs_action rnd fs filePath n) = fs \<and>
         (\<forall>r. fst (pairs_action rnd fs filePath n) = Inr r \<longrightarrow>
            mset (values_after r) = mset (readValues fs filePath) \<and>
            set (paired (pairs_printed r)) \<subseteq> set (readValues fs filePath))"
proof -
  let ?v0 = "readValues fs filePath"
  let ?v1 = "sort_values ?v0"
  let ?c1 = "shuffle rnd (select_candidates n ?v1)"
  have fs: "snd (pairs_action rnd fs filePath n) = fs"
    by (simp add: pairs_action_def Let_def)
  have c1: "mset ?c1 = mset (select_candidates n ?v1)"
    using assms(1) by (rule mset_shuffle)
  have v1: "mset ?v1 = mset ?v0"
    by (simp add: sort_values_def)
  have full: "select_candidates n ?v1 = ?v1" if "3 \<le> comparisonCount (?v1 ! 0)"
    using that by (simp add: select_candidates_def)
  obtain m where m: "paired (emit_pairs n ?c1) = take m ?c1"
    using paired_emit_pairs by blast
  have "set (take m ?c1) \<subseteq> set ?c1"
    by (rule set_take_subset)
  also have "set ?c1 = set (select_candidates n ?v1)"
    using c1 by (rule mset_eq_setD)
  also have "\<dots> \<subseteq> set ?v1"
    using set_mset_mono [OF mset_select_candidates [of n ?v1]] by simp
  also have "\<dots> = set ?v0"
    by (simp add: sort_values_def)
  finally have sub: "set (paired (emit_pairs n ?c1)) \<subseteq> set ?v0"
    by (simp add: m)
  have "mset (values_after r) = mset ?v0 \<and> set (paired (pairs_printed r)) \<subseteq> set ?v0"
    if "fst (pairs_action rnd fs filePath n) = Inr r" for r
  proof -
    have r: "r = \<lparr>values_after = (if 3 \<le> comparisonCount (?v1 ! 0) then ?c1 else ?v1),
                pairs_printed = emit_pairs n ?c1\<rparr>"
      using that by (auto simp: pairs_action_def Let_def split: if_splits)
    show ?thesis
      using sub c1 v1 full by (auto simp: r)
  qed
  with fs show ?thesis by blast
qed

theorem pairs_action_read_only_witness:
  "unit_interval (\<lambda>k. 1 / 2) \<and>
   fst (pairs_action (\<lambda>k. 1 / 2) [''my.values.csv'' \<mapsto> [life, health, reason]] ''my.values.csv'' 2)
     = Inr \<lparr>values_after = [life, reason, health], pairs_printed = [(life, health)]\<rparr> \<and>
   snd (pairs_action (\<lambda>k. 1 / 2) [''my.values.csv'' \<mapsto> [life, health, reason]] ''my.values.csv'' 2)
     = [''my.values.csv'' \<mapsto> [life, health, reason]] \<and>
   mset [life, reason, health]
     = mset (readValues [''my.values.csv'' \<mapsto> [life, health, reason]] ''my.values.csv'') \<and>
   set (paired [(life, health)])
     \<subseteq> set (readValues [''my.values.csv'' \<mapsto> [life, health, reason]] ''my.values.csv'')"
proof -
  let ?fs = "[''my.values.csv'' \<mapsto> [life, health, reason]]"
  let ?r = "\<lparr>values_after = [life, reason, health], pairs_printed = [(life, health)]\<rparr>"
  have rd: "readValues ?fs ''my.values.csv'' = [life, health, reason]"
    by (simp add: readValues_def)
  have sv: "sort_values [life, health, reason] = [life, reason, health]"
    by (simp add: sort_values_def life_def health_def reason_def newValue_def)
  have sc: "select_candidates 2 [life, reason, health] = [life, reason, health]"
    using candidate_pool_sample_extended by (simp add: candidate_pool_def sv)
  have mc: "\<not> 3 \<le> comparisonCount life"
    by (simp add: life_def newValue_def)
  have ep: "emit_pairs 2 [life, health, reason] = [(life, health)]"
    by (simp add: emit_pairs_def pairs_loop.simps)
  have h: "fst (pairs_action (\<lambda>k. 1 / 2) ?fs ''my.values.csv'' 2) = Inr ?r"
    by (simp add: pairs_action_def validateFile_def suffix_def rd sv sc mc shuffle_sample ep)
  note t = pairs_action_read_only [OF unit_interval_half, of ?fs "''my.values.csv''" 2]
  have c1: "snd (pairs_action (\<lambda>k. 1 / 2) ?fs ''my.values.csv'' 2) = ?fs"
    using t by (rule conjunct1)
  have c23: "mset (values_after ?r) = mset (readValues ?fs ''my.values.csv'') \<and>
     set (paired (pairs_printed ?r)) \<subseteq> set (readValues ?fs ''my.values.csv'')"
    using t h by blast
  have c2: "mset [life, reason, health] = mset (readValues ?fs ''my.values.csv'')"
    using c23 by simp
  have c3: "set (paired [(life, health)]) \<subseteq> set (readValues ?fs ''my.values.csv'')"
    using c23 by simp
  show ?thesis
    by (intro conjI unit_interval_half h c1 c2 c3)
qed

text \<open>
  Claim C10. For every list of at least two records and every \<open>n \<ge> 1\<close>, the candidate
  pool holds at least two records and \<open>selectPairs\<close> returns at least one pair.
\<close>

theorem selectPairs_nonempty:
  assumes "2 \<le> length records" and "1 \<le> n"
  shows "2 \<le> length (candidate_pool n records) \<and> 1 \<le> length (selectPairs rnd n records)"
proof -
  have p: "2 \<le> length (candidate_pool n records)"
    using assms by (rule length_candidate_pool)
  have "int (length (selectPairs rnd n records)) =
        min n (int (length (candidate_pool n records)) div 2)"
    using assms(2) by (simp add: selectPairs_def length_emit_pairs length_shuffle)
  with p assms(2) show ?thesis by linarith
qed

theorem selectPairs_nonempty_witness:
  "2 \<le> length [life, health, reason] \<and> (1::int) \<le> 1 \<and>
   2 \<le> length (candidate_pool 1 [life, health, reason]) \<and>
   1 \<le> length (selectPairs (\<lambda>k. 1 / 2) 1 [life, health, reason])"
proof -
  have h1: "2 \<le> length [life, health, reason]" by simp
  have h2: "(1::int) \<le> 1" by simp
  note t = selectPairs_nonempty [OF h1 h2, of "\<lambda>k. 1 / 2"]
  show ?thesis
    by (intro conjI h1 h2 conjunct1 [OF t] conjunct2 [OF t])
qed

subsection \<open>Claims about the \<^verbatim>\<open>update-scores\<close> command\<close>

lemma parse_response_sample: "parse_response ''Life>Health'' = Inr (''Life'', ''Health'')"
  by (simp add: parse_response_def)

lemma trim_ws_sample:
  "trim_ws ''Life'' = ''Life'' \<and> trim_ws ''Health'' = ''Health'' \<and>
   trim_ws '' Life'' = ''Life'' \<and> trim_ws ''Wealth'' = ''Wealth''"
  by (simp add: trim_ws_def is_space_def)

lemma trim_ws_no_break_space: "trim_ws (CHR 0xA0 # ''Life'' @ [CHR 0xA0, CHR 0x09]) = ''Life''"
  by (simp add: trim_ws_def is_space_def)

lemma title_sample:
  "title life = ''Life'' \<and> title health = ''Health'' \<and> title reason = ''Reason'' \<and>
   title life_again = ''Life''"
  by (simp add: life_def health_def reason_def life_again_def newValue_def)


lemma exact_row_sample_1: "exact_row (Suc 0) life \<and> exact_row (Suc 0) health"
  by (simp add: exact_row_def life_def health_def newValue_def)


lemma js_sub_add_rounds:
  "js_sub (js_add (3602879701896397 / 36028797018963968) 10) 10
     = 56294995342131 / 562949953421312"
  by code_simp

lemma count_add_rounds: "count_add 9007199254740992 1 = 9007199254740992"
  by code_simp

text \<open>
  Claim C1. If a response of the batch names, as winner or as loser, a title that no
  record of the file has, the command ends with an error and the file system is as it
  was before the command: the updates that earlier responses of the batch made to the
  array in memory are never written. This holds for every function \<open>trim\<close>.
\<close>

theorem update_scores_all_or_nothing:
  assumes "resp \<in> set (split_on CHR '','' responses)"
    and "parse_response resp = Inr (winner, loser)"
    and "trim winner \<notin> title ` set (readValues fs filePath) \<or>
         trim loser \<notin> title ` set (readValues fs filePath)"
  shows "\<exists>e. update_scores trim now fs filePath (Some responses) = (Some e, fs)"
proof -
  obtain e where
    "forEach_response trim now (split_on CHR '','' responses) (readValues fs filePath) = Inl e"
    using forEach_response_fails [OF assms(1,2), of trim "readValues fs filePath" now] assms(3)
    by auto
  then show ?thesis
    by (simp add: update_scores_def)
qed

theorem update_scores_all_or_nothing_witness:
  "''Wealth>Life'' \<in> set (split_on CHR '','' ''Life>Health,Wealth>Life'') \<and>
   parse_response ''Wealth>Life'' = Inr (''Wealth'', ''Life'') \<and>
   trim_ws ''Wealth''
     \<notin> title ` set (readValues [''my.values.csv'' \<mapsto> [life, health]] ''my.values.csv'') \<and>
   (\<exists>e. update_scores trim_ws ''t1'' [''my.values.csv'' \<mapsto> [life, health]] ''my.values.csv''
          (Some ''Life>Health,Wealth>Life'')
        = (Some e, [''my.values.csv'' \<mapsto> [life, health]]))"
proof -
  let ?fs = "[''my.values.csv'' \<mapsto> [life, health]]"
  have h1: "''Wealth>Life'' \<in> set (split_on CHR '','' ''Life>Health,Wealth>Life'')"
    by simp
  have h2: "parse_response ''Wealth>Life'' = Inr (''Wealth'', ''Life'')"
    by (simp add: parse_response_def)
  have h3: "trim_ws ''Wealth'' \<notin> title ` set (readValues ?fs ''my.values.csv'')"
    by (simp add: readValues_def trim_ws_sample title_sample)
  have c: "\<exists>e. update_scores trim_ws ''t1'' ?fs ''my.values.csv''
               (Some ''Life>Health,Wealth>Life'')
             = (Some e, ?fs)"
    using h1 h2 disjI1 [OF h3] by (rule update_scores_all_or_nothing)
  show ?thesis
    by (intro conjI h1 h2 h3 c)
qed




text \<open>
  Claim C6, as the code has it. A title that several records have does not make the
  response fail. When the titles of the winner and of the loser are both titles of
  records, the response is applied: each title resolves to the first record of the file
  that has it, these two records get the new score (plus and minus 10 in the arithmetic
  of numbers), count and time stamp, and every other record, the later records of the
  same title among them, is left as it was.
\<close>

theorem apply_response_first_match:
  assumes "parse_response resp = Inr (winner, loser)"
    and "trim winner \<in> title ` set values"
    and "trim loser \<in> title ` set values"
  shows "\<exists>w l values'.
           apply_response trim now resp values = Inr values' \<and>
           w < length values \<and> title (values ! w) = trim winner \<and>
           (\<forall>k<w. title (values ! k) \<noteq> trim winner) \<and>
           l < length values \<and> title (values ! l) = trim loser \<and>
           (\<forall>k<l. title (values ! k) \<noteq> trim loser) \<and>
           length values' = length values \<and>
           values' ! w = (values ! w)
             \<lparr>score := (if w = l then js_sub (js_add (score (values ! w)) 10) 10
                        else js_add (score (values ! w)) 10),
              comparisonCount :=
                (if w = l then count_add (count_add (comparisonCount (values ! w)) 1) 1
                 else count_add (comparisonCount (values ! w)) 1),
              updatedAt := now\<rparr> \<and>
           values' ! l = (values ! l)
             \<lparr>score := (if w = l then js_sub (js_add (score (values ! l)) 10) 10
                        else js_sub (score (values ! l)) 10),
              comparisonCount :=
                (if w = l then count_add (count_add (comparisonCount (values ! l)) 1) 1
                 else count_add (comparisonCount (values ! l)) 1),
              updatedAt := now\<rparr> \<and>
           (\<forall>k<length values. k \<noteq> w \<longrightarrow> k \<noteq> l \<longrightarrow> values' ! k = values ! k)"
proof -
  obtain w where w: "find_ref (\<lambda>v. title v = trim winner) values = Some w"
    using assms(2)
    by (cases "find_ref (\<lambda>v. title v = trim winner) values") (auto simp: find_ref_None)
  obtain l where l: "find_ref (\<lambda>v. title v = trim loser) values = Some l"
    using assms(3)
    by (cases "find_ref (\<lambda>v. title v = trim loser) values") (auto simp: find_ref_None)
  have a: "apply_response trim now resp values = Inr (elo_update now w l values)"
    using assms(1) w l by (rule apply_response_found)
  show ?thesis
    using find_ref_Some [OF w] find_ref_Some [OF l] a
    by (intro exI [of _ w] exI [of _ l] exI [of _ "elo_update now w l values"])
      (simp add: length_elo_update nth_elo_update)
qed

theorem apply_response_first_match_witness:
  "parse_response ''Life>Health'' = Inr (''Life'', ''Health'') \<and>
   trim_ws ''Life'' \<in> title ` set [life, life_again, health] \<and>
   trim_ws ''Health'' \<in> title ` set [life, life_again, health] \<and>
   (\<exists>w l values'.
      apply_response trim_ws ''t1'' ''Life>Health'' [life, life_again, health] = Inr values' \<and>
      w < length [life, life_again, health] \<and>
      title ([life, life_again, health] ! w) = trim_ws ''Life'' \<and>
      (\<forall>k<w. title ([life, life_again, health] ! k) \<noteq> trim_ws ''Life'') \<and>
      l < length [life, life_again, health] \<and>
      title ([life, life_again, health] ! l) = trim_ws ''Health'' \<and>
      (\<forall>k<l. title ([life, life_again, health] ! k) \<noteq> trim_ws ''Health'') \<and>
      length values' = length [life, life_again, health] \<and>
      values' ! w = ([life, life_again, health] ! w)
        \<lparr>score := (if w = l then js_sub (js_add (score ([life, life_again, health] ! w)) 10) 10
                   else js_add (score ([life, life_again, health] ! w)) 10),
         comparisonCount :=
           (if w = l
            then count_add (count_add (comparisonCount ([life, life_again, health] ! w)) 1) 1
            else count_add (comparisonCount ([life, life_again, health] ! w)) 1),
         updatedAt := ''t1''\<rparr> \<and>
      values' ! l = ([life, life_again, health] ! l)
        \<lparr>score := (if w = l then js_sub (js_add (score ([life, life_again, health] ! l)) 10) 10
                   else js_sub (score ([life, life_again, health] ! l)) 10),
         comparisonCount :=
           (if w = l
            then count_add (count_add (comparisonCount ([life, life_again, health] ! l)) 1) 1
            else count_add (comparisonCount ([life, life_again, health] ! l)) 1),
         updatedAt := ''t1''\<rparr> \<and>
      (\<forall>k<length [life, life_again, health]. k \<noteq> w \<longrightarrow> k \<noteq> l \<longrightarrow>
         values' ! k = [life, life_again, health] ! k))"
proof -
  have h2: "trim_ws ''Life'' \<in> title ` set [life, life_again, health]"
    by (simp add: trim_ws_sample title_sample)
  have h3: "trim_ws ''Health'' \<in> title ` set [life, life_again, health]"
    by (simp add: trim_ws_sample title_sample)
  show ?thesis
    by (intro conjI parse_response_sample h2 h3
        apply_response_first_match [OF parse_response_sample h2 h3])
qed

text \<open>
  The command on a file with two rows of the title \<open>Life\<close>: it ends without an error and
  writes the file, with the first of the two rows updated and the second as it was.
\<close>

theorem update_scores_duplicate_title_counterexample:
  "map title [life, life_again, health] = [''Life'', ''Life'', ''Health''] \<and>
   update_scores trim_ws ''t1'' [''my.values.csv'' \<mapsto> [life, life_again, health]]
       ''my.values.csv'' (Some ''Life>Health'')
     = (None,
        [''my.values.csv'' \<mapsto>
           [life\<lparr>score := 1510, comparisonCount := 1, updatedAt := ''t1''\<rparr>,
            life_again,
            health\<lparr>score := 1490, comparisonCount := 2, updatedAt := ''t1''\<rparr>]])"
proof -
  have w: "find_ref (\<lambda>v. title v = trim_ws ''Life'') [life, life_again, health] = Some 0"
    by (simp add: trim_ws_sample title_sample)
  have l: "find_ref (\<lambda>v. title v = trim_ws ''Health'') [life, life_again, health] = Some 2"
    by (simp add: trim_ws_sample title_sample)
  have a: "apply_response trim_ws ''t1'' ''Life>Health'' [life, life_again, health] =
           Inr [life\<lparr>score := 1510, comparisonCount := 1, updatedAt := ''t1''\<rparr>,
                life_again,
                health\<lparr>score := 1490, comparisonCount := 2, updatedAt := ''t1''\<rparr>]"
    using w l
    by (simp add: apply_response_def parse_response_sample elo_update_def modify_def
        exact_row_arith [OF conjunct1 [OF exact_row_sample_1]]
        exact_row_arith [OF conjunct2 [OF exact_row_sample_1]])
      (simp add: life_def health_def newValue_def)
  show ?thesis
    by (simp add: update_scores_def validateFile_def suffix_def readValues_def writeValues_def
        a title_sample)
qed

text \<open>
  Claim C9, as the code has it. A response whose winner and loser are, after trimming,
  the same title, the title of exactly one record, is applied and not rejected: the
  record gets the score \<open>(score + 10) - 10\<close> in the arithmetic of numbers, its count
  is increased twice, its \<open>updatedAt\<close> is the time stamp, and nothing else changes. When
  the record has an integer score with \<open>\<bar>score\<bar> + 10 < 2 ^ 53\<close> and a count with
  \<open>\<bar>comparisonCount\<bar> + 2 < 2 ^ 53\<close>, it keeps its score and its count grows by 2.
\<close>

theorem apply_response_same_record:
  assumes "parse_response resp = Inr (winner, loser)"
    and "trim winner = trim loser"
    and "length (filter (\<lambda>v. title v = trim winner) values) = 1"
  shows "\<exists>r. r < length values \<and> title (values ! r) = trim winner \<and>
           apply_response trim now resp values =
             Inr (values[r := (values ! r)
                    \<lparr>score := js_sub (js_add (score (values ! r)) 10) 10,
                     comparisonCount := count_add (count_add (comparisonCount (values ! r)) 1) 1,
                     updatedAt := now\<rparr>]) \<and>
           (exact_row 1 (values ! r) \<longrightarrow>
              apply_response trim now resp values =
                Inr (values[r := (values ! r)
                       \<lparr>comparisonCount := comparisonCount (values ! r) + 2,
                        updatedAt := now\<rparr>]))"
proof -
  obtain r where r: "find_ref (\<lambda>v. title v = trim winner) values = Some r"
    using filter_one_find_ref [OF assms(3)] by blast
  then have rl: "r < length values" "title (values ! r) = trim winner"
    using find_ref_Some [of "\<lambda>v. title v = trim winner" "values" r] by simp_all
  have "find_ref (\<lambda>v. title v = trim loser) values = Some r"
    using r assms(2) by simp
  with assms(1) r have a: "apply_response trim now resp values = Inr (elo_update now r r values)"
    by (rule apply_response_found)
  have b: "elo_update now r r values =
     values[r := (values ! r)
              \<lparr>score := js_sub (js_add (score (values ! r)) 10) 10,
               comparisonCount := count_add (count_add (comparisonCount (values ! r)) 1) 1,
               updatedAt := now\<rparr>]"
    using rl(1)
    by (intro nth_equalityI) (simp_all add: length_elo_update nth_elo_update nth_list_update)
  have c: "elo_update now r r values =
     values[r := (values ! r)\<lparr>comparisonCount := comparisonCount (values ! r) + 2,
                               updatedAt := now\<rparr>]"
    if "exact_row 1 (values ! r)"
  proof -
    have e: "exact_row (Suc 0) (values ! r)" using that by simp
    show ?thesis
      unfolding b using exact_row_arith [OF e] by simp
  qed
  show ?thesis
    using rl a b c by (intro exI [of _ r]) simp
qed

theorem apply_response_same_record_witness:
  "parse_response ''Life> Life'' = Inr (''Life'', '' Life'') \<and>
   trim_ws ''Life'' = trim_ws '' Life'' \<and>
   length (filter (\<lambda>v. title v = trim_ws ''Life'') [health, life]) = 1 \<and>
   exact_row 1 ([health, life] ! 1) \<and>
   apply_response trim_ws ''t1'' ''Life> Life'' [health, life] =
     Inr [health, life\<lparr>comparisonCount := comparisonCount life + 2, updatedAt := ''t1''\<rparr>]"
proof -
  have h1: "parse_response ''Life> Life'' = Inr (''Life'', '' Life'')"
    by (simp add: parse_response_def)
  have h2: "trim_ws ''Life'' = trim_ws '' Life''"
    by (simp add: trim_ws_sample)
  have h3: "length (filter (\<lambda>v. title v = trim_ws ''Life'') [health, life]) = 1"
    by (simp add: trim_ws_sample title_sample)
  have h4: "exact_row 1 ([health, life] ! 1)"
    using exact_row_sample_1 by simp
  obtain r where r: "r < length [health, life]"
    "title ([health, life] ! r) = trim_ws ''Life''"
    and ex: "exact_row 1 ([health, life] ! r) \<longrightarrow>
       apply_response trim_ws ''t1'' ''Life> Life'' [health, life] =
         Inr ([health, life][r := ([health, life] ! r)
                \<lparr>comparisonCount := comparisonCount ([health, life] ! r) + 2,
                 updatedAt := ''t1''\<rparr>])"
    using apply_response_same_record [OF h1 h2 h3, of "''t1''"] by blast
  have "r = 1"
    using r by (cases r) (simp_all add: trim_ws_sample title_sample)
  with ex h4 have c: "apply_response trim_ws ''t1'' ''Life> Life'' [health, life] =
     Inr [health, life\<lparr>comparisonCount := comparisonCount life + 2, updatedAt := ''t1''\<rparr>]"
    by simp
  show ?thesis
    by (intro conjI h1 h2 h3 h4 c)
qed

text \<open>
  The claim as it was stated fails where a sum is not exact: on a row whose score is the
  double next to \<open>0.1\<close>, the response leaves the score \<open>0.09999999999999964\<close>.
\<close>

theorem apply_response_same_record_counterexample:
  "map title [life\<lparr>score := 3602879701896397 / 36028797018963968\<rparr>] = [''Life''] \<and>
   apply_response trim_ws ''t1'' ''Life>Life''
       [life\<lparr>score := 3602879701896397 / 36028797018963968\<rparr>] =
     Inr [life\<lparr>score := 56294995342131 / 562949953421312, comparisonCount := 2,
               updatedAt := ''t1''\<rparr>] \<and>
   (56294995342131 / 562949953421312 :: real) \<noteq> 3602879701896397 / 36028797018963968"
proof -
  have p: "parse_response ''Life>Life'' = Inr (''Life'', ''Life'')"
    by (simp add: parse_response_def)
  have w: "find_ref (\<lambda>v. title v = trim_ws ''Life'')
             [life\<lparr>score := 3602879701896397 / 36028797018963968\<rparr>] = Some 0"
    by (simp add: trim_ws_sample title_sample)
  have "apply_response trim_ws ''t1'' ''Life>Life''
       [life\<lparr>score := 3602879701896397 / 36028797018963968\<rparr>] =
     Inr [life\<lparr>score := 56294995342131 / 562949953421312, comparisonCount := 2,
               updatedAt := ''t1''\<rparr>]"
    using w
    by (simp add: apply_response_def p elo_update_def modify_def js_sub_add_rounds
        exact_row_arith [OF conjunct1 [OF exact_row_sample_1]])
      (simp add: life_def newValue_def)
  then show ?thesis by (simp add: title_sample)
qed

end
